theory Spec2Isabelle
  imports Main "HOL-Library.Word" "HOL-Library.Char_ord" "HOL-Library.List_Lexorder"
begin

section \<open>Data model of \<open>src/merkle.js\<close>\<close>

text \<open>
  A digest is the string that ethers returns for a hash (\<open>0x\<close> followed by lowercase hex).
  JavaScript compares two strings with \<open><\<close> code unit by code unit; on such ASCII
  strings that is the lexicographic order of \<open>char list\<close> over the order of characters
  by their code (\<open>Char_ord\<close>, \<open>List_Lexorder\<close>).
\<close>

type_synonym digest = string

type_synonym byte = "8 word"

text \<open>
  ethers' \<open>BytesLike\<close>: \<open>sha256\<close> and \<open>keccak256\<close> are called on a
  \<open>Uint8Array\<close> (from \<open>randomBytes\<close>, \<open>toUtf8Bytes\<close>) and on a hex
  string (from \<open>concat\<close>).
\<close>

datatype bytesLike = HexString string | Uint8Array "byte list"

text \<open>
  The functions imported from \<open>ethers\<close> in line 1 are not part of the repository.
  They are parameters of the model: total, opaque functions, as the hash primitives are
  on well-formed digests. \<open>concat_bytes\<close> is ethers' \<open>concat\<close>.
  \<open>randomBytes\<close> reads the random source; it is a parameter of its own, a function
  from the state of the source to a block of bytes and the next state.
\<close>

record ethers =
  sha256 :: "bytesLike \<Rightarrow> digest"
  keccak256 :: "bytesLike \<Rightarrow> digest"
  toUtf8Bytes :: "string \<Rightarrow> byte list"
  concat_bytes :: "string list \<Rightarrow> string"

type_synonym 's randomBytes = "nat \<Rightarrow> 's \<Rightarrow> byte list \<times> 's"

text \<open>
  The three \<open>throw new Error(...)\<close> of the file, by their message:
  \<^item> \<open>UnsupportedAlgorithm\<close>: 'Unsupported algorithm. Use "sha256" or "keccak256"';
  \<^item> \<open>InvalidInput\<close>: 'Invalid input. Provide result from generateRandomHashes or array of hashes.';
  \<^item> \<open>EmptyInput\<close>: 'Cannot build Merkle tree from empty array'.

  \<open>InvalidBytesLike\<close> is the \<open>TypeError\<close> ('invalid BytesLike value') that ethers'
  \<open>concat\<close> throws in line 71 on a string that is not a hex string.
\<close>

datatype error = UnsupportedAlgorithm | InvalidInput | EmptyInput | InvalidBytesLike

text \<open>
  The object \<open>{hashes, algorithm}\<close>. A property that is absent (or \<open>undefined\<close>)
  is \<open>None\<close>.
\<close>

record leafSet =
  hashes :: "digest list option"
  algorithm :: "string option"

text \<open>
  What \<open>buildMerkleRoot\<close> may receive as \<open>leavesInput\<close>: an object, an array of
  digests, or a value that is neither (\<open>null\<close>, \<open>undefined\<close>, a number, a string).
\<close>

datatype leavesInput = JSObject leafSet | JSArray "digest list" | JSOther

text \<open>
  Every invocation of \<open>combineHashes\<close> made by \<open>buildMerkleRoot\<close> that returned, in
  order, as the pair of its arguments \<open>(left, right)\<close>.
\<close>

type_synonym calls = "(digest \<times> digest) list"

section \<open>The operations\<close>

text \<open>Lines 9 to 31. The parameter \<open>algorithm\<close> defaults to \<open>'keccak256'\<close>.\<close>

definition defaultAlgorithm :: "string option \<Rightarrow> string" where
  "defaultAlgorithm a = (case a of None \<Rightarrow> ''keccak256'' | Some s \<Rightarrow> s)"

function generateLoop ::
  "ethers \<Rightarrow> 's randomBytes \<Rightarrow> int \<Rightarrow> string \<Rightarrow> nat \<Rightarrow> digest list \<Rightarrow> 's
     \<Rightarrow> (error + digest list) \<times> 's" where
  "generateLoop E rb count alg i hs s =
     (if int i < count then
        (case rb 32 s of (randomData, s') \<Rightarrow>
           if alg = ''sha256'' then
             generateLoop E rb count alg (i + 1) (hs @ [sha256 E (Uint8Array randomData)]) s'
           else if alg = ''keccak256'' then
             generateLoop E rb count alg (i + 1) (hs @ [keccak256 E (Uint8Array randomData)]) s'
           else (Inl UnsupportedAlgorithm, s'))
      else (Inr hs, s))"
  by pat_completeness auto
termination
  by (relation "measure (\<lambda>(E, rb, count, alg, i, hs, s). nat (count - int i))") auto

declare generateLoop.simps [simp del]

definition generateRandomHashes ::
  "ethers \<Rightarrow> 's randomBytes \<Rightarrow> int \<Rightarrow> string option \<Rightarrow> 's \<Rightarrow> (error + leafSet) \<times> 's" where
  "generateRandomHashes E rb count algorithm0 s =
     (let alg = defaultAlgorithm algorithm0 in
      case generateLoop E rb count alg 0 [] s of
        (Inl e, s') \<Rightarrow> (Inl e, s')
      | (Inr hs, s') \<Rightarrow> (Inr \<lparr>hashes = Some hs, algorithm = Some alg\<rparr>, s'))"

text \<open>Lines 39 to 55: the result is the pair \<open>{hash, algorithm}\<close>.\<close>

definition hashString :: "ethers \<Rightarrow> string \<Rightarrow> string option \<Rightarrow> error + digest \<times> string" where
  "hashString E text0 algorithm0 =
     (let alg = defaultAlgorithm algorithm0; bytes = toUtf8Bytes E text0 in
      if alg = ''sha256'' then Inr (sha256 E (Uint8Array bytes), alg)
      else if alg = ''keccak256'' then Inr (keccak256 E (Uint8Array bytes), alg)
      else Inl UnsupportedAlgorithm)"

text \<open>
  Lines 64 to 77, on two strings that ethers accepts as \<open>BytesLike\<close>, as digests are:
  the digest that the call returns. On any other string \<open>concat\<close> throws in line 71;
  \<open>combineHashes_throwing\<close> below is the function with that failure, and
  \<open>combineHashes_throwing_eq\<close> relates the two.
\<close>

definition combineHashes :: "ethers \<Rightarrow> digest \<Rightarrow> digest \<Rightarrow> string \<Rightarrow> digest" where
  "combineHashes E left right alg =
     (case (if left < right then (left, right) else (right, left)) of
        (first, second) \<Rightarrow>
          let combined = concat_bytes E [first, second] in
          if alg = ''sha256'' then sha256 E (HexString combined)
          else keccak256 E (HexString combined))"

text \<open>
  Lines 130 to 148, the \<open>for\<close> loop over the pairs of one level: \<open>i\<close> is the loop
  index, \<open>nextLevel\<close> the array being filled.
\<close>

function pairLoop ::
  "ethers \<Rightarrow> string \<Rightarrow> digest list \<Rightarrow> nat \<Rightarrow> digest list \<Rightarrow> calls \<Rightarrow> digest list \<times> calls" where
  "pairLoop E alg currentLevel i nextLevel cs =
     (if i < length currentLevel then
        (if i + 1 < length currentLevel then
           pairLoop E alg currentLevel (i + 2)
             (nextLevel @ [combineHashes E (currentLevel ! i) (currentLevel ! (i + 1)) alg])
             (cs @ [(currentLevel ! i, currentLevel ! (i + 1))])
         else
           pairLoop E alg currentLevel (i + 2) (nextLevel @ [currentLevel ! i]) cs)
      else (nextLevel, cs))"
  by pat_completeness auto
termination
  by (relation "measure (\<lambda>(E, alg, currentLevel, i, nextLevel, cs). length currentLevel - i)") auto

declare pairLoop.simps [simp del]

text \<open>The length of the level that the \<open>for\<close> loop builds.\<close>

lemma pairLoop_length:
  "length (fst (pairLoop E alg cur i nxt cs)) = length nxt + (length cur - i + 1) div 2"
proof (induction E alg cur i nxt cs rule: pairLoop.induct)
  case (1 E alg cur i nxt cs)
  show ?case
  proof (cases "i < length cur")
    case False
    then show ?thesis by (simp add: pairLoop.simps [of E alg cur i])
  next
    case inside: True
    show ?thesis
    proof (cases "i + 1 < length cur")
      case True
      with inside "1.IH"(1) show ?thesis
        by (simp add: pairLoop.simps [of E alg cur i])
    next
      case False
      with inside "1.IH"(2) show ?thesis
        by (simp add: pairLoop.simps [of E alg cur i])
    qed
  qed
qed

text \<open>
  Lines 118 to 159, the \<open>while\<close> loop: one iteration starts the \<open>for\<close> loop at index
  0 with an empty \<open>nextLevel\<close>, and the level it builds becomes the current one.
\<close>

function whileLoop :: "ethers \<Rightarrow> string \<Rightarrow> digest list \<Rightarrow> calls \<Rightarrow> digest list \<times> calls" where
  "whileLoop E alg currentLevel cs =
     (if length currentLevel > 1 then
        (case pairLoop E alg currentLevel 0 [] cs of
           (nextLevel, cs') \<Rightarrow> whileLoop E alg nextLevel cs')
      else (currentLevel, cs))"
  by pat_completeness auto
termination
proof (relation "measure (\<lambda>(E, alg, currentLevel, cs). length currentLevel)")
  show "wf (measure (\<lambda>(E, alg, currentLevel, cs). length currentLevel))"
    by simp
next
  fix E :: ethers and alg :: string and currentLevel :: "digest list" and cs :: calls
    and nextLevel :: "digest list" and cs' :: calls
  assume long: "1 < length currentLevel"
    and pair: "(nextLevel, cs') = pairLoop E alg currentLevel 0 [] cs"
  have "length nextLevel = (length currentLevel + 1) div 2"
    using pairLoop_length [of E alg currentLevel 0 "[]" cs] pair [symmetric]
    by simp
  with long show "((E, alg, nextLevel, cs'), (E, alg, currentLevel, cs))
      \<in> measure (\<lambda>(E, alg, currentLevel, cs). length currentLevel)"
    by simp
qed

declare whileLoop.simps [simp del]

text \<open>
  Line 95, \<open>algorithmOverride || 'keccak256'\<close>: an override that is \<open>undefined\<close>
  or the empty string is falsy.
\<close>

definition overrideOrDefault :: "string option \<Rightarrow> string" where
  "overrideOrDefault algorithmOverride =
     (case algorithmOverride of
        Some a \<Rightarrow> if a \<noteq> [] then a else ''keccak256''
      | None \<Rightarrow> ''keccak256'')"

text \<open>
  Lines 85 to 169. In line 89 an array is truthy even when empty, and a string is truthy
  when it is not empty. The first component of the result is what the call returns or throws;
  \<open>currentLevel[0]\<close> of an empty array would be \<open>undefined\<close>, here \<open>None\<close>.
  The second component lists the invocations of \<open>combineHashes\<close>.
\<close>

definition buildMerkleRoot ::
  "ethers \<Rightarrow> leavesInput \<Rightarrow> string option \<Rightarrow> (error + digest option) \<times> calls" where
  "buildMerkleRoot E leavesInput algorithmOverride =
     (case
        (case leavesInput of
           JSObject obj \<Rightarrow>
             (case (hashes obj, algorithm obj) of
                (Some hs, Some a) \<Rightarrow> if a \<noteq> [] then Inr (hs, a) else Inl InvalidInput
              | _ \<Rightarrow> Inl InvalidInput)
         | JSArray xs \<Rightarrow>
             Inr (xs, overrideOrDefault algorithmOverride)
         | JSOther \<Rightarrow> Inl InvalidInput)
      of
        Inl e \<Rightarrow> (Inl e, [])
      | Inr (leaves, alg) \<Rightarrow>
          if length leaves = 0 then (Inl EmptyInput, [])
          else
            (case whileLoop E alg leaves [] of
               (currentLevel, cs) \<Rightarrow>
                 (Inr (case currentLevel of [] \<Rightarrow> None | root # _ \<Rightarrow> Some root), cs)))"

section \<open>The reduction with the failure of \<open>concat\<close>\<close>

text \<open>
  ethers' \<open>concat\<close> throws on an element that is not \<open>BytesLike\<close>; for a string that
  is the test \<open>isBytesLike\<close>, a parameter here. Lines 64 to 77 with this failure: the
  two strings are sorted, \<open>concat\<close> throws or returns their concatenation, a hex
  string, and the hash of it is returned.
\<close>

definition combineHashes_throwing ::
  "ethers \<Rightarrow> (string \<Rightarrow> bool) \<Rightarrow> digest \<Rightarrow> digest \<Rightarrow> string \<Rightarrow> error + digest" where
  "combineHashes_throwing E isBytesLike left right alg =
     (case (if left < right then (left, right) else (right, left)) of
        (first, second) \<Rightarrow>
          if isBytesLike first \<and> isBytesLike second then
            (let combined = concat_bytes E [first, second] in
             Inr (if alg = ''sha256'' then sha256 E (HexString combined)
                  else keccak256 E (HexString combined)))
          else Inl InvalidBytesLike)"

text \<open>
  Lines 130 to 148 with the failure: a throw ends the loop, and the invocations that
  returned before it stay recorded.
\<close>

function pairLoop_throwing ::
  "ethers \<Rightarrow> (string \<Rightarrow> bool) \<Rightarrow> string \<Rightarrow> digest list \<Rightarrow> nat \<Rightarrow> digest list \<Rightarrow> calls
     \<Rightarrow> (error + digest list) \<times> calls" where
  "pairLoop_throwing E isBytesLike alg currentLevel i nextLevel cs =
     (if i < length currentLevel then
        (if i + 1 < length currentLevel then
           (case combineHashes_throwing E isBytesLike (currentLevel ! i) (currentLevel ! (i + 1)) alg of
              Inl e \<Rightarrow> (Inl e, cs)
            | Inr parentHash \<Rightarrow>
                pairLoop_throwing E isBytesLike alg currentLevel (i + 2)
                  (nextLevel @ [parentHash]) (cs @ [(currentLevel ! i, currentLevel ! (i + 1))]))
         else
           pairLoop_throwing E isBytesLike alg currentLevel (i + 2)
             (nextLevel @ [currentLevel ! i]) cs)
      else (Inr nextLevel, cs))"
  by pat_completeness auto
termination
  by (relation "measure (\<lambda>(E, isBytesLike, alg, currentLevel, i, nextLevel, cs).
        length currentLevel - i)") auto

declare pairLoop_throwing.simps [simp del]

lemma pairLoop_throwing_length:
  "pairLoop_throwing E ok alg cur i nxt cs = (Inr nxt', cs') \<Longrightarrow>
     length nxt' = length nxt + (length cur - i + 1) div 2"
proof (induction E ok alg cur i nxt cs rule: pairLoop_throwing.induct)
  case (1 E ok alg cur i nxt cs)
  show ?case
  proof (cases "i < length cur")
    case False
    with "1.prems" show ?thesis
      by (simp add: pairLoop_throwing.simps [of E ok alg cur i])
  next
    case inside: True
    show ?thesis
    proof (cases "i + 1 < length cur")
      case False
      with inside "1.prems" have
        "pairLoop_throwing E ok alg cur (i + 2) (nxt @ [cur ! i]) cs = (Inr nxt', cs')"
        by (simp add: pairLoop_throwing.simps [of E ok alg cur i])
      from "1.IH"(2) [OF inside False this] inside False show ?thesis by simp
    next
      case True
      show ?thesis
      proof (cases "combineHashes_throwing E ok (cur ! i) (cur ! (i + 1)) alg")
        case (Inl e)
        with inside True "1.prems" show ?thesis
          by (simp add: pairLoop_throwing.simps [of E ok alg cur i])
      next
        case (Inr p)
        with inside True "1.prems" have
          "pairLoop_throwing E ok alg cur (i + 2) (nxt @ [p]) (cs @ [(cur ! i, cur ! (i + 1))])
             = (Inr nxt', cs')"
          by (simp add: pairLoop_throwing.simps [of E ok alg cur i])
        from "1.IH"(1) [OF inside True Inr this] inside True show ?thesis by simp
      qed
    qed
  qed
qed

text \<open>Lines 118 to 159 with the failure.\<close>

function whileLoop_throwing ::
  "ethers \<Rightarrow> (string \<Rightarrow> bool) \<Rightarrow> string \<Rightarrow> digest list \<Rightarrow> calls
     \<Rightarrow> (error + digest list) \<times> calls" where
  "whileLoop_throwing E isBytesLike alg currentLevel cs =
     (if length currentLevel > 1 then
        (case pairLoop_throwing E isBytesLike alg currentLevel 0 [] cs of
           (Inl e, cs') \<Rightarrow> (Inl e, cs')
         | (Inr nextLevel, cs') \<Rightarrow> whileLoop_throwing E isBytesLike alg nextLevel cs')
      else (Inr currentLevel, cs))"
  by pat_completeness auto
termination
proof (relation "measure (\<lambda>(E, isBytesLike, alg, currentLevel, cs). length currentLevel)")
  show "wf (measure (\<lambda>(E, isBytesLike, alg, currentLevel, cs). length currentLevel))"
    by simp
next
  fix E :: ethers and isBytesLike :: "string \<Rightarrow> bool" and alg :: string
    and currentLevel :: "digest list" and cs :: calls
    and x :: "error + digest list" and cs' :: calls and nextLevel :: "digest list"
  assume long: "1 < length currentLevel"
    and run: "(x, cs') = pairLoop_throwing E isBytesLike alg currentLevel 0 [] cs"
    and x: "x = Inr nextLevel"
  have "length nextLevel = (length currentLevel + 1) div 2"
    using pairLoop_throwing_length [of E isBytesLike alg currentLevel 0 "[]" cs nextLevel cs']
      run x by simp
  with long show "((E, isBytesLike, alg, nextLevel, cs'), (E, isBytesLike, alg, currentLevel, cs))
      \<in> measure (\<lambda>(E, isBytesLike, alg, currentLevel, cs). length currentLevel)"
    by simp
qed

declare whileLoop_throwing.simps [simp del]

text \<open>Lines 85 to 169 with the failure.\<close>

definition buildMerkleRoot_throwing ::
  "ethers \<Rightarrow> (string \<Rightarrow> bool) \<Rightarrow> leavesInput \<Rightarrow> string option
     \<Rightarrow> (error + digest option) \<times> calls" where
  "buildMerkleRoot_throwing E isBytesLike leavesInput algorithmOverride =
     (case
        (case leavesInput of
           JSObject obj \<Rightarrow>
             (case (hashes obj, algorithm obj) of
                (Some hs, Some a) \<Rightarrow> if a \<noteq> [] then Inr (hs, a) else Inl InvalidInput
              | _ \<Rightarrow> Inl InvalidInput)
         | JSArray xs \<Rightarrow>
             Inr (xs, overrideOrDefault algorithmOverride)
         | JSOther \<Rightarrow> Inl InvalidInput)
      of
        Inl e \<Rightarrow> (Inl e, [])
      | Inr (leaves, alg) \<Rightarrow>
          if length leaves = 0 then (Inl EmptyInput, [])
          else
            (case whileLoop_throwing E isBytesLike alg leaves [] of
               (Inl e, cs) \<Rightarrow> (Inl e, cs)
             | (Inr currentLevel, cs) \<Rightarrow>
                 (Inr (case currentLevel of [] \<Rightarrow> None | root # _ \<Rightarrow> Some root), cs)))"

text \<open>
  The hashes return strings that ethers accepts, as \<open>sha256\<close> and \<open>keccak256\<close> of
  ethers do.
\<close>

definition hashesAccepted :: "ethers \<Rightarrow> (string \<Rightarrow> bool) \<Rightarrow> bool" where
  "hashesAccepted E isBytesLike =
     (\<forall>b. isBytesLike (sha256 E b) \<and> isBytesLike (keccak256 E b))"

text \<open>The digests that \<open>leavesInput\<close> carries.\<close>

definition leavesOf :: "leavesInput \<Rightarrow> digest list" where
  "leavesOf leavesInput =
     (case leavesInput of
        JSObject obj \<Rightarrow> (case hashes obj of Some hs \<Rightarrow> hs | None \<Rightarrow> [])
      | JSArray xs \<Rightarrow> xs
      | JSOther \<Rightarrow> [])"

section \<open>One level as the specification words it\<close>

text \<open>
  Section 4.3 of the specification, steps 2 and 3: the level is scanned in consecutive
  pairs, each complete pair is combined, and an unpaired last digest is promoted
  unchanged. \<open>nextLevel_spec\<close> is the level that results and \<open>calls_spec\<close> the
  invocations of the combiner; the \<open>for\<close> loop of the source is compared with them
  in \<open>pairLoop_drop\<close>.
\<close>

fun nextLevel_spec :: "ethers \<Rightarrow> string \<Rightarrow> digest list \<Rightarrow> digest list" where
  "nextLevel_spec E alg (x # y # zs) = combineHashes E x y alg # nextLevel_spec E alg zs"
| "nextLevel_spec E alg [x] = [x]"
| "nextLevel_spec E alg [] = []"

fun calls_spec :: "digest list \<Rightarrow> calls" where
  "calls_spec (x # y # zs) = (x, y) # calls_spec zs"
| "calls_spec [x] = []"
| "calls_spec [] = []"

section \<open>A concrete instance of the imports\<close>

text \<open>
  Stand-ins for the functions of ethers and for the random source, to evaluate the model
  on concrete inputs: the two hashes mark their input with a different digit, the
  concatenation is that of hex strings, and the random source counts its calls. Every
  theorem below is proved for all instances.
\<close>

definition demoEthers :: ethers where
  "demoEthers =
     \<lparr>sha256 = (\<lambda>b. case b of HexString h \<Rightarrow> ''0x5'' @ drop 2 h | Uint8Array bs \<Rightarrow> ''0x5''),
      keccak256 = (\<lambda>b. case b of HexString h \<Rightarrow> ''0xc'' @ drop 2 h | Uint8Array bs \<Rightarrow> ''0xc''),
      toUtf8Bytes = map of_char,
      concat_bytes = (\<lambda>ds. ''0x'' @ concat (map (drop 2) ds))\<rparr>"

definition demoRandomBytes :: "nat randomBytes" where
  "demoRandomBytes n s = (replicate n (of_nat s), s + 1)"

text \<open>
  The test of ethers for a hex string, the pattern \<open>/^0x([0-9a-f][0-9a-f])*$/i\<close>, and
  stand-in hashes whose results pass it: they put two hex digits before the digits of
  their input.
\<close>

definition isHexDigit :: "char \<Rightarrow> bool" where
  "isHexDigit c = (c \<in> set ''0123456789abcdefABCDEF'')"

definition isHexString :: "string \<Rightarrow> bool" where
  "isHexString s =
     ((take 2 s = ''0x'' \<or> take 2 s = ''0X'') \<and> even (length s) \<and> list_all isHexDigit (drop 2 s))"

definition demoHexEthers :: ethers where
  "demoHexEthers =
     \<lparr>sha256 = (\<lambda>b. case b of
                  HexString h \<Rightarrow> if isHexString h then ''0x55'' @ drop 2 h else ''0x55''
                | Uint8Array bs \<Rightarrow> ''0x55''),
      keccak256 = (\<lambda>b. case b of
                  HexString h \<Rightarrow> if isHexString h then ''0xcc'' @ drop 2 h else ''0xcc''
                | Uint8Array bs \<Rightarrow> ''0xcc''),
      toUtf8Bytes = map of_char,
      concat_bytes = (\<lambda>ds. ''0x'' @ concat (map (drop 2) ds))\<rparr>"

section \<open>The loops\<close>

lemma drop_two: "i + 1 < length xs \<Longrightarrow> drop i xs = xs ! i # xs ! (i + 1) # drop (i + 2) xs"
  by (metis Cons_nth_drop_Suc Suc_eq_plus1 add_2_eq_Suc' add_lessD1)

lemma drop_last_one: "i < length xs \<Longrightarrow> \<not> i + 1 < length xs \<Longrightarrow> drop i xs = [xs ! i]"
  by (metis Cons_nth_drop_Suc Suc_eq_plus1 drop_all not_less)

text \<open>
  From index \<open>i\<close> on, the \<open>for\<close> loop appends to \<open>nextLevel\<close> what the specification
  describes for the rest of the level, and makes the invocations it describes.
\<close>

lemma pairLoop_drop:
  "pairLoop E alg cur i nxt cs =
     (nxt @ nextLevel_spec E alg (drop i cur), cs @ calls_spec (drop i cur))"
proof (induction E alg cur i nxt cs rule: pairLoop.induct)
  case (1 E alg cur i nxt cs)
  show ?case
  proof (cases "i < length cur")
    case False
    then show ?thesis by (simp add: pairLoop.simps [of E alg cur i])
  next
    case inside: True
    show ?thesis
    proof (cases "i + 1 < length cur")
      case True
      with inside "1.IH"(1) show ?thesis
        by (simp add: pairLoop.simps [of E alg cur i] drop_two [of i cur])
    next
      case False
      with inside "1.IH"(2) show ?thesis
        by (simp add: pairLoop.simps [of E alg cur i] drop_last_one [of i cur])
    qed
  qed
qed

lemma nextLevel_spec_length: "length (nextLevel_spec E alg xs) = (length xs + 1) div 2"
  by (induction E alg xs rule: nextLevel_spec.induct) simp_all

lemma nextLevel_spec_nth:
  "2 * k + 1 < length xs \<Longrightarrow>
     nextLevel_spec E alg xs ! k = combineHashes E (xs ! (2 * k)) (xs ! (2 * k + 1)) alg"
proof (induction E alg xs arbitrary: k rule: nextLevel_spec.induct)
  case (1 E alg x y zs)
  show ?case
  proof (cases k)
    case 0
    then show ?thesis by simp
  next
    case (Suc j)
    with "1.prems" have "2 * j + 1 < length zs" by simp
    from "1.IH" [OF this] Suc show ?thesis by simp
  qed
qed simp_all

lemma nextLevel_spec_last:
  "odd (length xs) \<Longrightarrow> last (nextLevel_spec E alg xs) = last xs"
proof (induction E alg xs rule: nextLevel_spec.induct)
  case (1 E alg x y zs)
  then have "odd (length zs)" by simp
  then have "zs \<noteq> []" by auto
  moreover have "nextLevel_spec E alg zs \<noteq> []"
    using \<open>zs \<noteq> []\<close> nextLevel_spec_length [of E alg zs]
    by (cases zs) auto
  ultimately show ?case using "1.IH" \<open>odd (length zs)\<close> by simp
qed simp_all

lemma calls_spec_eq:
  "calls_spec xs = map (\<lambda>k. (xs ! (2 * k), xs ! (2 * k + 1))) [0..<length xs div 2]"
proof (induction xs rule: calls_spec.induct)
  case (1 x y zs)
  have "map (\<lambda>k. ((x # y # zs) ! (2 * k), (x # y # zs) ! (2 * k + 1))) [0..<length (x # y # zs) div 2]
      = (x, y) # map (\<lambda>k. (zs ! (2 * k), zs ! (2 * k + 1))) [0..<length zs div 2]"
    by (simp add: map_upt_Suc del: upt_Suc)
  with 1 show ?case by simp
qed simp_all

lemma whileLoop_step:
  "1 < length cur \<Longrightarrow>
     whileLoop E alg cur cs = whileLoop E alg (nextLevel_spec E alg cur) (cs @ calls_spec cur)"
  by (simp add: whileLoop.simps [of E alg cur] pairLoop_drop)

lemma whileLoop_stop: "length cur \<le> 1 \<Longrightarrow> whileLoop E alg cur cs = (cur, cs)"
  by (simp add: whileLoop.simps [of E alg cur])

lemma whileLoop_length:
  "cur \<noteq> [] \<Longrightarrow> length (fst (whileLoop E alg cur cs)) = 1"
proof (induction E alg cur cs rule: whileLoop.induct)
  case (1 E alg cur cs)
  show ?case
  proof (cases "1 < length cur")
    case False
    with "1.prems" have "length cur = 1" by (cases cur) auto
    then show ?thesis by (simp add: whileLoop_stop)
  next
    case True
    obtain nxt cs' where p: "pairLoop E alg cur 0 [] cs = (nxt, cs')" by force
    have "length nxt = (length cur + 1) div 2"
      using pairLoop_length [of E alg cur 0 "[]" cs] p by simp
    with True have "nxt \<noteq> []" by auto
    from "1.IH" [OF True p [symmetric] this] True p show ?thesis
      by (simp add: whileLoop.simps [of E alg cur])
  qed
qed

text \<open>
  The level that ends the loop is the starting level after \<open>k\<close> steps, for some
  \<open>k\<close> below its length.
\<close>

lemma whileLoop_iterations:
  "cur \<noteq> [] \<Longrightarrow>
     \<exists>k<length cur. fst (whileLoop E alg cur cs) = (nextLevel_spec E alg ^^ k) cur"
proof (induction "length cur" arbitrary: cur cs rule: less_induct)
  case less
  show ?case
  proof (cases "1 < length cur")
    case False
    with less.prems have "fst (whileLoop E alg cur cs) = (nextLevel_spec E alg ^^ 0) cur"
      by (simp add: whileLoop_stop)
    moreover from less.prems have "0 < length cur" by simp
    ultimately show ?thesis by blast
  next
    case True
    let ?nxt = "nextLevel_spec E alg cur"
    have len: "length ?nxt = (length cur + 1) div 2"
      by (rule nextLevel_spec_length)
    with True have "length ?nxt < length cur" and "?nxt \<noteq> []"
      by auto
    from less.hyps [OF this, of "cs @ calls_spec cur"]
    obtain k where k: "k < length ?nxt"
      and eq: "fst (whileLoop E alg ?nxt (cs @ calls_spec cur)) = (nextLevel_spec E alg ^^ k) ?nxt"
      by blast
    have "fst (whileLoop E alg cur cs) = (nextLevel_spec E alg ^^ Suc k) cur"
      using True eq by (simp add: whileLoop_step funpow_swap1)
    moreover have "Suc k < length cur"
      using k len True by linarith
    ultimately show ?thesis by blast
  qed
qed

lemma whileLoop_one: "whileLoop E alg [d] cs = ([d], cs)"
  by (simp add: whileLoop_stop)

lemma whileLoop_two:
  "whileLoop E alg [a, b] cs = ([combineHashes E a b alg], cs @ [(a, b)])"
  by (simp add: whileLoop_step whileLoop_stop)

lemma whileLoop_three:
  "whileLoop E alg [a, b, c] cs =
     ([combineHashes E (combineHashes E a b alg) c alg],
      cs @ [(a, b), (combineHashes E a b alg, c)])"
  by (simp add: whileLoop_step whileLoop_stop)

lemma whileLoop_four:
  "whileLoop E alg [h1, h2, h3, h4] cs =
     ([combineHashes E (combineHashes E h1 h2 alg) (combineHashes E h3 h4 alg) alg],
      cs @ [(h1, h2), (h3, h4), (combineHashes E h1 h2 alg, combineHashes E h3 h4 alg)])"
  by (simp add: whileLoop_step whileLoop_stop)

section \<open>The two shapes of input\<close>

lemma buildMerkleRoot_array:
  "buildMerkleRoot E (JSArray xs) ov =
     (if xs = [] then (Inl EmptyInput, [])
      else (Inr (case fst (whileLoop E (overrideOrDefault ov) xs []) of
                   [] \<Rightarrow> None | root # _ \<Rightarrow> Some root),
            snd (whileLoop E (overrideOrDefault ov) xs [])))"
  by (simp add: buildMerkleRoot_def split: prod.splits)

lemma buildMerkleRoot_object:
  "alg \<noteq> [] \<Longrightarrow>
     buildMerkleRoot E (JSObject \<lparr>hashes = Some xs, algorithm = Some alg\<rparr>) ov =
     (if xs = [] then (Inl EmptyInput, [])
      else (Inr (case fst (whileLoop E alg xs []) of [] \<Rightarrow> None | root # _ \<Rightarrow> Some root),
            snd (whileLoop E alg xs [])))"
  by (simp add: buildMerkleRoot_def split: prod.splits)

section \<open>The generation loop\<close>

lemma generateLoop_done: "\<not> int i < count \<Longrightarrow> generateLoop E rb count alg i hs s = (Inr hs, s)"
  by (simp add: generateLoop.simps [of E rb count alg i])

lemma generateLoop_supported:
  "alg = ''sha256'' \<or> alg = ''keccak256'' \<Longrightarrow>
     \<exists>hs' s'. generateLoop E rb count alg i hs s = (Inr hs', s') \<and>
       int (length hs') = int (length hs) + max 0 (count - int i)"
proof (induction E rb count alg i hs s rule: generateLoop.induct)
  case (1 E rb count alg i hs s)
  show ?case
  proof (cases "int i < count")
    case False
    then show ?thesis by (simp add: generateLoop.simps [of E rb count alg i])
  next
    case True
    obtain randomData s1 where r: "rb 32 s = (randomData, s1)" by force
    show ?thesis
    proof (cases "alg = ''sha256''")
      case sha: True
      from "1.IH"(1) [OF True r [symmetric] sha] "1.prems"
      obtain hs' s' where
        "generateLoop E rb count alg (i + 1) (hs @ [sha256 E (Uint8Array randomData)]) s1 = (Inr hs', s')"
        "int (length hs') = int (length (hs @ [sha256 E (Uint8Array randomData)])) + max 0 (count - int (i + 1))"
        by blast
      moreover have "generateLoop E rb count alg i hs s =
          generateLoop E rb count alg (i + 1) (hs @ [sha256 E (Uint8Array randomData)]) s1"
        using True r sha by (subst generateLoop.simps) simp
      ultimately show ?thesis using True by auto
    next
      case False
      with "1.prems" have kec: "alg = ''keccak256''" by simp
      from "1.IH"(2) [OF True r [symmetric] False kec] "1.prems"
      obtain hs' s' where
        "generateLoop E rb count alg (i + 1) (hs @ [keccak256 E (Uint8Array randomData)]) s1 = (Inr hs', s')"
        "int (length hs') = int (length (hs @ [keccak256 E (Uint8Array randomData)])) + max 0 (count - int (i + 1))"
        by blast
      moreover have "generateLoop E rb count alg i hs s =
          generateLoop E rb count alg (i + 1) (hs @ [keccak256 E (Uint8Array randomData)]) s1"
        using True r False kec by (subst generateLoop.simps) simp
      ultimately show ?thesis using True by auto
    qed
  qed
qed

section \<open>The stand-in hashes on a pair\<close>

lemma demo_combine_sha:
  "combineHashes demoEthers x y ''sha256'' = ''0x5'' @ drop 2 (min x y) @ drop 2 (max x y)"
  by (simp add: combineHashes_def demoEthers_def min_def max_def)

lemma demo_combine_keccak:
  "combineHashes demoEthers x y ''keccak256'' = ''0xc'' @ drop 2 (min x y) @ drop 2 (max x y)"
  by (simp add: combineHashes_def demoEthers_def min_def max_def)

section \<open>The reduction on accepted digests\<close>

text \<open>
  When both strings are accepted, \<open>combineHashes_throwing\<close> returns what
  \<open>combineHashes\<close> returns; otherwise it throws.
\<close>

lemma combineHashes_throwing_eq:
  "combineHashes_throwing E ok l r alg =
     (if ok l \<and> ok r then Inr (combineHashes E l r alg) else Inl InvalidBytesLike)"
  by (auto simp: combineHashes_throwing_def combineHashes_def Let_def)

lemma combineHashes_accepted:
  "hashesAccepted E ok \<Longrightarrow> ok (combineHashes E x y alg)"
  by (simp add: hashesAccepted_def combineHashes_def Let_def split: prod.splits)

lemma nextLevel_spec_accepted:
  "hashesAccepted E ok \<Longrightarrow> list_all ok xs \<Longrightarrow> list_all ok (nextLevel_spec E alg xs)"
  by (induction E alg xs rule: nextLevel_spec.induct) (simp_all add: combineHashes_accepted)

lemma pairLoop_throwing_accepted:
  "list_all ok cur \<Longrightarrow>
     pairLoop_throwing E ok alg cur i nxt cs =
       (Inr (fst (pairLoop E alg cur i nxt cs)), snd (pairLoop E alg cur i nxt cs))"
proof (induction E alg cur i nxt cs rule: pairLoop.induct)
  case (1 E alg cur i nxt cs)
  show ?case
  proof (cases "i < length cur")
    case False
    then show ?thesis
      by (simp add: pairLoop_throwing.simps [of E ok alg cur i] pairLoop.simps [of E alg cur i])
  next
    case inside: True
    show ?thesis
    proof (cases "i + 1 < length cur")
      case True
      with "1.prems" have "ok (cur ! i)" "ok (cur ! (i + 1))"
        by (simp_all add: list_all_length)
      with inside True "1.IH"(1) "1.prems" show ?thesis
        by (simp add: pairLoop_throwing.simps [of E ok alg cur i] pairLoop.simps [of E alg cur i]
            combineHashes_throwing_eq)
    next
      case False
      with inside "1.IH"(2) "1.prems" show ?thesis
        by (simp add: pairLoop_throwing.simps [of E ok alg cur i] pairLoop.simps [of E alg cur i])
    qed
  qed
qed

lemma whileLoop_throwing_accepted:
  "hashesAccepted E ok \<Longrightarrow> list_all ok cur \<Longrightarrow>
     whileLoop_throwing E ok alg cur cs =
       (Inr (fst (whileLoop E alg cur cs)), snd (whileLoop E alg cur cs))"
proof (induction E alg cur cs rule: whileLoop.induct)
  case (1 E alg cur cs)
  show ?case
  proof (cases "1 < length cur")
    case False
    then show ?thesis
      by (simp add: whileLoop_throwing.simps [of E ok alg cur] whileLoop.simps [of E alg cur])
  next
    case True
    obtain nxt cs' where p: "pairLoop E alg cur 0 [] cs = (nxt, cs')" by force
    then have "nxt = nextLevel_spec E alg cur" by (simp add: pairLoop_drop)
    with "1.prems" have acc: "list_all ok nxt" by (simp add: nextLevel_spec_accepted)
    have "whileLoop_throwing E ok alg nxt cs' =
        (Inr (fst (whileLoop E alg nxt cs')), snd (whileLoop E alg nxt cs'))"
      using "1.IH" [OF True p [symmetric] "1.prems"(1) acc] .
    with True p "1.prems"(2) show ?thesis
      by (simp add: whileLoop_throwing.simps [of E ok alg cur] whileLoop.simps [of E alg cur]
          pairLoop_throwing_accepted)
  qed
qed

text \<open>
  On leaves that ethers accepts nothing throws inside the reduction, and
  \<open>buildMerkleRoot\<close> is what the call does.
\<close>

lemma buildMerkleRoot_throwing_accepted:
  "hashesAccepted E ok \<Longrightarrow> list_all ok (leavesOf leavesInput) \<Longrightarrow>
     buildMerkleRoot_throwing E ok leavesInput ov = buildMerkleRoot E leavesInput ov"
  by (auto simp: buildMerkleRoot_throwing_def buildMerkleRoot_def leavesOf_def
      whileLoop_throwing_accepted
      split: leavesInput.splits option.splits prod.splits)

lemma pairLoop_throwing_error:
  "pairLoop_throwing E ok alg cur i nxt cs = (Inl e, cs') \<Longrightarrow> e = InvalidBytesLike"
proof (induction E ok alg cur i nxt cs rule: pairLoop_throwing.induct)
  case (1 E ok alg cur i nxt cs)
  show ?case
  proof (cases "i < length cur")
    case False
    with "1.prems" show ?thesis by (simp add: pairLoop_throwing.simps [of E ok alg cur i])
  next
    case inside: True
    show ?thesis
    proof (cases "i + 1 < length cur")
      case False
      with inside "1.prems" have
        "pairLoop_throwing E ok alg cur (i + 2) (nxt @ [cur ! i]) cs = (Inl e, cs')"
        by (simp add: pairLoop_throwing.simps [of E ok alg cur i])
      from "1.IH"(2) [OF inside False this] show ?thesis .
    next
      case True
      show ?thesis
      proof (cases "combineHashes_throwing E ok (cur ! i) (cur ! (i + 1)) alg")
        case (Inl e')
        with inside True "1.prems" show ?thesis
          by (simp add: pairLoop_throwing.simps [of E ok alg cur i] combineHashes_throwing_eq
              split: if_splits)
      next
        case (Inr p)
        with inside True "1.prems" have
          "pairLoop_throwing E ok alg cur (i + 2) (nxt @ [p]) (cs @ [(cur ! i, cur ! (i + 1))])
             = (Inl e, cs')"
          by (simp add: pairLoop_throwing.simps [of E ok alg cur i])
        from "1.IH"(1) [OF inside True Inr this] show ?thesis .
      qed
    qed
  qed
qed

lemma whileLoop_throwing_error:
  "whileLoop_throwing E ok alg cur cs = (Inl e, cs') \<Longrightarrow> e = InvalidBytesLike"
proof (induction E ok alg cur cs rule: whileLoop_throwing.induct)
  case (1 E ok alg cur cs)
  show ?case
  proof (cases "1 < length cur")
    case False
    with "1.prems" show ?thesis by (simp add: whileLoop_throwing.simps [of E ok alg cur])
  next
    case True
    obtain x c where p: "pairLoop_throwing E ok alg cur 0 [] cs = (x, c)" by force
    show ?thesis
    proof (cases x)
      case (Inl e')
      with True p "1.prems" have "e' = e"
        by (simp add: whileLoop_throwing.simps [of E ok alg cur])
      with p Inl show ?thesis by (auto dest: pairLoop_throwing_error)
    next
      case (Inr nxt)
      with True p "1.prems" have "whileLoop_throwing E ok alg nxt c = (Inl e, cs')"
        by (simp add: whileLoop_throwing.simps [of E ok alg cur])
      from "1.IH" [OF True p [symmetric] Inr this] show ?thesis .
    qed
  qed
qed

lemma buildMerkleRoot_throwing_failure:
  "fst (buildMerkleRoot_throwing E ok leavesInput ov) = Inl e \<Longrightarrow>
     e = InvalidBytesLike \<or>
     (e = InvalidInput \<or> e = EmptyInput) \<and> snd (buildMerkleRoot_throwing E ok leavesInput ov) = []"
  by (auto simp: buildMerkleRoot_throwing_def
      split: leavesInput.splits option.splits prod.splits sum.splits if_splits
      dest: whileLoop_throwing_error)

lemma buildMerkleRoot_outcome:
  "(\<exists>e. buildMerkleRoot E leavesInput ov = (Inl e, [])) \<or>
   (\<exists>root cs. buildMerkleRoot E leavesInput ov = (Inr (Some root), cs))"
proof -
  have loop: "\<exists>root cs. (case whileLoop E a xs [] of
      (currentLevel, cs) \<Rightarrow>
         (Inr (case currentLevel of [] \<Rightarrow> None | root # _ \<Rightarrow> Some root), cs)) =
      (Inr (Some root) :: error + digest option, cs)" if "xs \<noteq> []" for a xs
  proof -
    have "length (fst (whileLoop E a xs [])) = 1"
      using that by (rule whileLoop_length)
    then obtain r where "fst (whileLoop E a xs []) = [r]"
      by (cases "fst (whileLoop E a xs [])") auto
    then show ?thesis by (cases "whileLoop E a xs []") simp
  qed
  show ?thesis
  proof (cases leavesInput)
    case (JSObject obj)
    show ?thesis
    proof (cases "hashes obj")
      case None
      with JSObject show ?thesis by (simp add: buildMerkleRoot_def)
    next
      case hs: (Some xs)
      show ?thesis
      proof (cases "algorithm obj")
        case None
        with JSObject hs show ?thesis by (simp add: buildMerkleRoot_def)
      next
        case (Some a)
        with JSObject hs loop [of xs a] show ?thesis
          by (simp add: buildMerkleRoot_def)
      qed
    qed
  next
    case (JSArray xs)
    with loop [of xs "overrideOrDefault ov"] show ?thesis
      by (simp add: buildMerkleRoot_def)
  next
    case JSOther
    then show ?thesis by (simp add: buildMerkleRoot_def)
  qed
qed

lemma isHexString_tagged:
  "isHexString h \<Longrightarrow> isHexDigit c \<Longrightarrow> isHexDigit d \<Longrightarrow> isHexString (''0x'' @ c # d # drop 2 h)"
  by (auto simp: isHexString_def)

lemma demoHexEthers_accepted: "hashesAccepted demoHexEthers isHexString"
proof -
  have five: "isHexDigit CHR ''5''" and c: "isHexDigit CHR ''c''"
    by (simp_all add: isHexDigit_def)
  have "isHexString ''0x55''" "isHexString ''0xcc''"
    by (simp_all add: isHexString_def isHexDigit_def)
  moreover have "isHexString (''0x55'' @ drop 2 h)" "isHexString (''0xcc'' @ drop 2 h)"
    if "isHexString h" for h
    using isHexString_tagged [OF that five five] isHexString_tagged [OF that c c] by simp_all
  ultimately show ?thesis
    by (simp add: hashesAccepted_def demoHexEthers_def split: bytesLike.splits)
qed

section \<open>The leaf source\<close>

text \<open>
  C3, as stated, fails on the code: \<open>generateRandomHashes\<close> has no check of \<open>count\<close>.
  With \<open>count = 0\<close> the loop body never runs and the call returns a Leaf Set with no
  digest; it throws nothing.
\<close>

theorem nonpositive_count_counterexample:
  "fst (generateRandomHashes demoEthers demoRandomBytes 0 (Some ''sha256'') 0) \<noteq> Inl InvalidInput \<and>
   generateRandomHashes demoEthers demoRandomBytes 0 (Some ''sha256'') 0 =
     (Inr \<lparr>hashes = Some [], algorithm = Some ''sha256''\<rparr>, 0)"
  by (simp add: generateRandomHashes_def defaultAlgorithm_def generateLoop_done)

text \<open>
  C3, amended. For a supported algorithm \<open>generateRandomHashes\<close> returns a Leaf Set
  whose algorithm field is the given algorithm; for \<open>count \<ge> 1\<close> its \<open>hashes\<close> has
  length exactly \<open>count\<close>, and for \<open>count < 1\<close> it is empty, no random block is drawn
  and no error is raised.
\<close>

theorem generateRandomHashes_count:
  "alg = ''sha256'' \<or> alg = ''keccak256'' \<longrightarrow>
     (\<exists>hs s'. generateRandomHashes E rb count (Some alg) s =
        (Inr \<lparr>hashes = Some hs, algorithm = Some alg\<rparr>, s') \<and>
        (1 \<le> count \<longrightarrow> int (length hs) = count) \<and>
        (count < 1 \<longrightarrow> hs = [] \<and> s' = s))"
proof
  assume "alg = ''sha256'' \<or> alg = ''keccak256''"
  from generateLoop_supported [OF this, of E rb count 0 "[]" s]
  obtain hs s' where run: "generateLoop E rb count alg 0 [] s = (Inr hs, s')"
    and len: "int (length hs) = max 0 count"
    by auto
  have "hs = [] \<and> s' = s" if "count < 1"
    using that run generateLoop_done [of 0 count E rb alg "[]" s] by simp
  with run len show "\<exists>hs s'. generateRandomHashes E rb count (Some alg) s =
        (Inr \<lparr>hashes = Some hs, algorithm = Some alg\<rparr>, s') \<and>
        (1 \<le> count \<longrightarrow> int (length hs) = count) \<and>
        (count < 1 \<longrightarrow> hs = [] \<and> s' = s)"
    by (simp add: generateRandomHashes_def defaultAlgorithm_def)
qed

theorem generateRandomHashes_count_witness:
  "(''sha256'' = ''sha256'' \<or> ''sha256'' = ''keccak256'') \<and>
   (1::int) \<le> 2 \<and>
   generateRandomHashes demoEthers demoRandomBytes 2 (Some ''sha256'') 0 =
     (Inr \<lparr>hashes = Some [''0x5'', ''0x5''], algorithm = Some ''sha256''\<rparr>, 2) \<and>
   (0::int) < 1 \<and>
   generateRandomHashes demoEthers demoRandomBytes 0 (Some ''sha256'') 7 =
     (Inr \<lparr>hashes = Some [], algorithm = Some ''sha256''\<rparr>, 7)"
  using generateRandomHashes_count [of "''sha256''" demoEthers demoRandomBytes 2 0]
    generateRandomHashes_count [of "''sha256''" demoEthers demoRandomBytes 0 7]
  by (simp add: generateRandomHashes_def defaultAlgorithm_def generateLoop.simps
      demoEthers_def demoRandomBytes_def)

text \<open>
  The leaf source rejects an identifier outside the supported set: \<open>hashString\<close> always,
  \<open>generateRandomHashes\<close> in the first iteration of its loop.
\<close>

lemma unsupported_rejected_by_leaf_source:
  "alg \<noteq> ''sha256'' \<Longrightarrow> alg \<noteq> ''keccak256'' \<Longrightarrow>
     hashString E txt (Some alg) = Inl UnsupportedAlgorithm \<and>
     (1 \<le> count \<longrightarrow> fst (generateRandomHashes E rb count (Some alg) s) = Inl UnsupportedAlgorithm)"
  by (auto simp: hashString_def generateRandomHashes_def defaultAlgorithm_def
      generateLoop.simps [of E rb count alg 0] split: prod.splits)

text \<open>
  C1 on the code, at the identifier \<open>'md5'\<close>: \<open>combineHashes\<close> hashes with Keccak-256,
  \<open>buildMerkleRoot\<close> returns the root so computed for both shapes of input, and
  \<open>generateRandomHashes\<close> with \<open>count = 0\<close> returns a Leaf Set tagged \<open>'md5'\<close>.
  None of the four calls fails.
\<close>

theorem unsupported_algorithm_accepted:
  "combineHashes E ''0xaa'' ''0xbb'' ''md5'' = keccak256 E (HexString (concat_bytes E [''0xaa'', ''0xbb''])) \<and>
   buildMerkleRoot E (JSObject \<lparr>hashes = Some [''0xaa'', ''0xbb''], algorithm = Some ''md5''\<rparr>) None =
     (Inr (Some (keccak256 E (HexString (concat_bytes E [''0xaa'', ''0xbb''])))),
      [(''0xaa'', ''0xbb'')]) \<and>
   buildMerkleRoot E (JSArray [''0xaa'', ''0xbb'']) (Some ''md5'') =
     (Inr (Some (keccak256 E (HexString (concat_bytes E [''0xaa'', ''0xbb''])))),
      [(''0xaa'', ''0xbb'')]) \<and>
   generateRandomHashes E rb 0 (Some ''md5'') s =
     (Inr \<lparr>hashes = Some [], algorithm = Some ''md5''\<rparr>, s)"
  by (simp add: buildMerkleRoot_object buildMerkleRoot_array whileLoop_two overrideOrDefault_def
      combineHashes_def generateRandomHashes_def defaultAlgorithm_def generateLoop_done)

section \<open>The pair combiner\<close>

text \<open>
  C7. \<open>combineHashes\<close> does not depend on the order of its two digests, for every pair
  (equal ones too) and every algorithm: it hashes the concatenation of the smaller digest
  and the larger one, in the lexicographic order of strings.
\<close>

theorem combineHashes_order_independent:
  "combineHashes E a b alg = combineHashes E b a alg \<and>
   combineHashes E a b alg =
     (if alg = ''sha256'' then sha256 E else keccak256 E)
       (HexString (concat_bytes E [min a b, max a b]))"
  by (auto simp: combineHashes_def Let_def min_def max_def)

section \<open>The tree reducer\<close>

text \<open>
  C6. For a Leaf Set of exactly one digest \<open>d\<close>, \<open>buildMerkleRoot\<close> returns \<open>d\<close>
  unchanged and invokes \<open>combineHashes\<close> not once: as a bare array with any override,
  and as an object that carries an algorithm.
\<close>

theorem single_leaf_is_root:
  "buildMerkleRoot E (JSArray [d]) ov = (Inr (Some d), []) \<and>
   (alg \<noteq> [] \<longrightarrow>
      buildMerkleRoot E (JSObject \<lparr>hashes = Some [d], algorithm = Some alg\<rparr>) ov =
        (Inr (Some d), []))"
  by (simp add: buildMerkleRoot_array buildMerkleRoot_object whileLoop_one)

theorem single_leaf_is_root_witness:
  "buildMerkleRoot demoEthers (JSArray [''0xaa'']) None = (Inr (Some ''0xaa''), []) \<and>
   ''sha256'' \<noteq> [] \<and>
   buildMerkleRoot demoEthers
       (JSObject \<lparr>hashes = Some [''0xaa''], algorithm = Some ''sha256''\<rparr>) None =
     (Inr (Some ''0xaa''), [])"
  using single_leaf_is_root [of demoEthers "''0xaa''" None "''sha256''"] by simp

text \<open>
  C5. One reduction step (the \<open>for\<close> loop started at index 0 with an empty next level)
  turns a level into the results of \<open>combineHashes\<close>, under the algorithm of the Leaf
  Set, on the index pairs (0,1), (2,3), ... in this order: element \<open>k\<close> of the next level
  is the combination of elements \<open>2k\<close> and \<open>2k+1\<close>, and the invocations are made from
  left to right. So the root of \<open>[a, b]\<close> is \<open>combineHashes a b\<close>, and the root of
  four digests combines the two combined pairs.
\<close>

theorem pairs_left_to_right:
  "length (fst (pairLoop E alg cur 0 [] cs)) = (length cur + 1) div 2 \<and>
   (\<forall>k. 2 * k + 1 < length cur \<longrightarrow>
      fst (pairLoop E alg cur 0 [] cs) ! k =
        combineHashes E (cur ! (2 * k)) (cur ! (2 * k + 1)) alg) \<and>
   snd (pairLoop E alg cur 0 [] cs) =
     cs @ map (\<lambda>k. (cur ! (2 * k), cur ! (2 * k + 1))) [0..<length cur div 2] \<and>
   (alg \<noteq> [] \<longrightarrow>
      buildMerkleRoot E (JSObject \<lparr>hashes = Some [a, b], algorithm = Some alg\<rparr>) ov =
        (Inr (Some (combineHashes E a b alg)), [(a, b)]) \<and>
      buildMerkleRoot E (JSObject \<lparr>hashes = Some [h1, h2, h3, h4], algorithm = Some alg\<rparr>) ov =
        (Inr (Some (combineHashes E (combineHashes E h1 h2 alg) (combineHashes E h3 h4 alg) alg)),
         [(h1, h2), (h3, h4), (combineHashes E h1 h2 alg, combineHashes E h3 h4 alg)]))"
proof (intro conjI allI impI)
  show "length (fst (pairLoop E alg cur 0 [] cs)) = (length cur + 1) div 2"
    by (simp add: pairLoop_drop nextLevel_spec_length)
next
  fix k
  assume "2 * k + 1 < length cur"
  then show "fst (pairLoop E alg cur 0 [] cs) ! k =
      combineHashes E (cur ! (2 * k)) (cur ! (2 * k + 1)) alg"
    by (simp add: pairLoop_drop nextLevel_spec_nth)
next
  show "snd (pairLoop E alg cur 0 [] cs) =
      cs @ map (\<lambda>k. (cur ! (2 * k), cur ! (2 * k + 1))) [0..<length cur div 2]"
    by (simp add: pairLoop_drop calls_spec_eq)
next
  assume "alg \<noteq> []"
  then show "buildMerkleRoot E (JSObject \<lparr>hashes = Some [a, b], algorithm = Some alg\<rparr>) ov =
      (Inr (Some (combineHashes E a b alg)), [(a, b)])"
    by (simp add: buildMerkleRoot_object whileLoop_two)
next
  assume "alg \<noteq> []"
  then show "buildMerkleRoot E (JSObject \<lparr>hashes = Some [h1, h2, h3, h4], algorithm = Some alg\<rparr>) ov =
      (Inr (Some (combineHashes E (combineHashes E h1 h2 alg) (combineHashes E h3 h4 alg) alg)),
       [(h1, h2), (h3, h4), (combineHashes E h1 h2 alg, combineHashes E h3 h4 alg)])"
    by (simp add: buildMerkleRoot_object whileLoop_four)
qed

theorem pairs_left_to_right_witness:
  "2 * 1 + 1 < length [''0xdd'', ''0xcc'', ''0xbb'', ''0xaa''] \<and>
   fst (pairLoop demoEthers ''keccak256'' [''0xdd'', ''0xcc'', ''0xbb'', ''0xaa''] 0 [] []) ! 1 =
     ''0xcaabb'' \<and>
   ''keccak256'' \<noteq> [] \<and>
   buildMerkleRoot demoEthers
       (JSObject \<lparr>hashes = Some [''0xdd'', ''0xcc''], algorithm = Some ''keccak256''\<rparr>) None =
     (Inr (Some ''0xcccdd''), [(''0xdd'', ''0xcc'')]) \<and>
   buildMerkleRoot demoEthers
       (JSObject \<lparr>hashes = Some [''0xdd'', ''0xcc'', ''0xbb'', ''0xaa''],
          algorithm = Some ''keccak256''\<rparr>) None =
     (Inr (Some ''0xccaabbcccdd''),
      [(''0xdd'', ''0xcc''), (''0xbb'', ''0xaa''), (''0xcccdd'', ''0xcaabb'')])"
  using pairs_left_to_right [of demoEthers "''keccak256''" "[''0xdd'', ''0xcc'', ''0xbb'', ''0xaa'']"
      "[]" "''0xdd''" "''0xcc''" None "''0xdd''" "''0xcc''" "''0xbb''" "''0xaa''"]
  by (simp add: demo_combine_keccak)

text \<open>
  C4. In a reduction step on a level of odd length, the last digest is the last element
  of the next level, unchanged: it is an argument of none of the invocations of
  \<open>combineHashes\<close> of that step, which take the indices below it in pairs. The root of
  \<open>[a, b, c]\<close> is \<open>combineHashes (combineHashes a b) c\<close>.
\<close>

theorem odd_node_promoted:
  "(odd (length cur) \<longrightarrow>
      length (fst (pairLoop E alg cur 0 [] cs)) = length cur div 2 + 1 \<and>
      last (fst (pairLoop E alg cur 0 [] cs)) = last cur \<and>
      fst (pairLoop E alg cur 0 [] cs) ! (length cur div 2) = cur ! (length cur - 1) \<and>
      snd (pairLoop E alg cur 0 [] cs) =
        cs @ map (\<lambda>k. (cur ! (2 * k), cur ! (2 * k + 1))) [0..<length cur div 2]) \<and>
   (alg \<noteq> [] \<longrightarrow>
      buildMerkleRoot E (JSObject \<lparr>hashes = Some [a, b, c], algorithm = Some alg\<rparr>) ov =
        (Inr (Some (combineHashes E (combineHashes E a b alg) c alg)),
         [(a, b), (combineHashes E a b alg, c)])) \<and>
   buildMerkleRoot E (JSArray [a, b, c]) ov =
     (Inr (Some (combineHashes E (combineHashes E a b (overrideOrDefault ov)) c
                   (overrideOrDefault ov))),
      [(a, b), (combineHashes E a b (overrideOrDefault ov), c)])"
proof (intro conjI impI)
  assume odd: "odd (length cur)"
  let ?nxt = "nextLevel_spec E alg cur"
  have len: "length ?nxt = length cur div 2 + 1"
    using odd nextLevel_spec_length [of E alg cur] by (auto elim: oddE)
  show "length (fst (pairLoop E alg cur 0 [] cs)) = length cur div 2 + 1"
    using len by (simp add: pairLoop_drop)
  show l: "last (fst (pairLoop E alg cur 0 [] cs)) = last cur"
    using odd by (simp add: pairLoop_drop nextLevel_spec_last)
  have ne: "?nxt \<noteq> []" "cur \<noteq> []"
    using len odd by auto
  have "?nxt ! (length cur div 2) = last ?nxt"
    using ne len by (simp add: last_conv_nth)
  also have "\<dots> = last cur" using odd by (simp add: nextLevel_spec_last)
  also have "\<dots> = cur ! (length cur - 1)" using ne by (simp add: last_conv_nth)
  finally show "fst (pairLoop E alg cur 0 [] cs) ! (length cur div 2) = cur ! (length cur - 1)"
    by (simp add: pairLoop_drop)
  show "snd (pairLoop E alg cur 0 [] cs) =
        cs @ map (\<lambda>k. (cur ! (2 * k), cur ! (2 * k + 1))) [0..<length cur div 2]"
    by (simp add: pairLoop_drop calls_spec_eq)
next
  assume "alg \<noteq> []"
  then show "buildMerkleRoot E (JSObject \<lparr>hashes = Some [a, b, c], algorithm = Some alg\<rparr>) ov =
        (Inr (Some (combineHashes E (combineHashes E a b alg) c alg)),
         [(a, b), (combineHashes E a b alg, c)])"
    by (simp add: buildMerkleRoot_object whileLoop_three)
next
  show "buildMerkleRoot E (JSArray [a, b, c]) ov =
     (Inr (Some (combineHashes E (combineHashes E a b (overrideOrDefault ov)) c
                   (overrideOrDefault ov))),
      [(a, b), (combineHashes E a b (overrideOrDefault ov), c)])"
    by (simp add: buildMerkleRoot_array whileLoop_three)
qed

theorem odd_node_promoted_witness:
  "odd (length [''0xcc'', ''0xbb'', ''0xaa'']) \<and>
   pairLoop demoEthers ''sha256'' [''0xcc'', ''0xbb'', ''0xaa''] 0 [] [] =
     ([''0x5bbcc'', ''0xaa''], [(''0xcc'', ''0xbb'')]) \<and>
   last (fst (pairLoop demoEthers ''sha256'' [''0xcc'', ''0xbb'', ''0xaa''] 0 [] [])) = ''0xaa'' \<and>
   ''sha256'' \<noteq> [] \<and>
   buildMerkleRoot demoEthers
       (JSObject \<lparr>hashes = Some [''0xcc'', ''0xbb'', ''0xaa''], algorithm = Some ''sha256''\<rparr>) None =
     (Inr (Some ''0x55bbccaa''), [(''0xcc'', ''0xbb''), (''0x5bbcc'', ''0xaa'')])"
  using odd_node_promoted [of "[''0xcc'', ''0xbb'', ''0xaa'']" demoEthers "''sha256''" "[]"
      "''0xcc''" "''0xbb''" "''0xaa''" None]
  by (simp add: demo_combine_sha pairLoop_drop)

text \<open>
  C10. The reduction loop terminates on every non-empty list of leaves. One iteration
  maps a level of length \<open>n \<ge> 2\<close> to one of length \<open>(n + 1) div 2\<close>, the ceiling of
  \<open>n / 2\<close>, which is smaller than \<open>n\<close>; the loop ends with a level of length 1, which
  is the result of fewer than \<open>n\<close> iterations of the step; and \<open>buildMerkleRoot\<close>
  returns a root.
\<close>

theorem reduction_terminates:
  "(2 \<le> length cur \<longrightarrow>
      length (fst (pairLoop E alg cur 0 [] cs)) = (length cur + 1) div 2 \<and>
      length (fst (pairLoop E alg cur 0 [] cs)) < length cur) \<and>
   (cur \<noteq> [] \<longrightarrow>
      length (fst (whileLoop E alg cur cs)) = 1 \<and>
      (\<exists>k<length cur.
         fst (whileLoop E alg cur cs) = ((\<lambda>l. fst (pairLoop E alg l 0 [] [])) ^^ k) cur) \<and>
      (\<exists>root. fst (buildMerkleRoot E (JSArray cur) ov) = Inr (Some root)))"
proof (intro conjI impI)
  assume "2 \<le> length cur"
  then show "length (fst (pairLoop E alg cur 0 [] cs)) < length cur"
    by (simp add: pairLoop_length)
next
  show "length (fst (pairLoop E alg cur 0 [] cs)) = (length cur + 1) div 2"
    by (simp add: pairLoop_length)
next
  assume "cur \<noteq> []"
  then show "length (fst (whileLoop E alg cur cs)) = 1"
    by (rule whileLoop_length)
next
  assume "cur \<noteq> []"
  then show "\<exists>k<length cur.
      fst (whileLoop E alg cur cs) = ((\<lambda>l. fst (pairLoop E alg l 0 [] [])) ^^ k) cur"
    by (simp add: pairLoop_drop whileLoop_iterations)
next
  assume ne: "cur \<noteq> []"
  have "length (fst (whileLoop E (overrideOrDefault ov) cur [])) = 1"
    using ne by (rule whileLoop_length)
  then obtain r where "fst (whileLoop E (overrideOrDefault ov) cur []) = [r]"
    by (cases "fst (whileLoop E (overrideOrDefault ov) cur [])") auto
  with ne show "\<exists>root. fst (buildMerkleRoot E (JSArray cur) ov) = Inr (Some root)"
    by (simp add: buildMerkleRoot_array)
qed

theorem reduction_terminates_witness:
  "2 \<le> length [''0xee'', ''0xdd'', ''0xcc'', ''0xbb'', ''0xaa''] \<and>
   length (fst (pairLoop demoEthers ''sha256'' [''0xee'', ''0xdd'', ''0xcc'', ''0xbb'', ''0xaa''] 0 [] []))
     = 3 \<and>
   [''0xee'', ''0xdd'', ''0xcc'', ''0xbb'', ''0xaa''] \<noteq> [] \<and>
   length (fst (whileLoop demoEthers ''sha256'' [''0xee'', ''0xdd'', ''0xcc'', ''0xbb'', ''0xaa''] [])) = 1 \<and>
   (\<exists>root. fst (buildMerkleRoot demoEthers (JSArray [''0xee'', ''0xdd'', ''0xcc'', ''0xbb'', ''0xaa''])
       (Some ''sha256'')) = Inr (Some root))"
  using reduction_terminates [of "[''0xee'', ''0xdd'', ''0xcc'', ''0xbb'', ''0xaa'']" demoEthers
      "''sha256''" "[]" "Some ''sha256''"]
  by simp

text \<open>
  C9. \<open>buildMerkleRoot\<close> reads nothing but its arguments and the hash functions: it is a
  function of them. For a non-empty sequence of digests and an algorithm, every invocation
  returns the same root and makes the same combinations, whatever the override passed
  along with the Leaf Set, and also when the same digests come as a bare array with the
  algorithm as override.
\<close>

theorem root_deterministic:
  "xs \<noteq> [] \<and> alg \<noteq> [] \<longrightarrow>
     (\<exists>root cs.
        buildMerkleRoot E (JSObject \<lparr>hashes = Some xs, algorithm = Some alg\<rparr>) ov1 =
          (Inr (Some root), cs) \<and>
        buildMerkleRoot E (JSObject \<lparr>hashes = Some xs, algorithm = Some alg\<rparr>) ov2 =
          (Inr (Some root), cs) \<and>
        buildMerkleRoot E (JSArray xs) (Some alg) = (Inr (Some root), cs))"
proof
  assume a: "xs \<noteq> [] \<and> alg \<noteq> []"
  then have "length (fst (whileLoop E alg xs [])) = 1"
    by (simp add: whileLoop_length)
  then obtain r where "fst (whileLoop E alg xs []) = [r]"
    by (cases "fst (whileLoop E alg xs [])") auto
  with a show "\<exists>root cs.
        buildMerkleRoot E (JSObject \<lparr>hashes = Some xs, algorithm = Some alg\<rparr>) ov1 =
          (Inr (Some root), cs) \<and>
        buildMerkleRoot E (JSObject \<lparr>hashes = Some xs, algorithm = Some alg\<rparr>) ov2 =
          (Inr (Some root), cs) \<and>
        buildMerkleRoot E (JSArray xs) (Some alg) = (Inr (Some root), cs)"
    by (simp add: buildMerkleRoot_object buildMerkleRoot_array overrideOrDefault_def)
qed

theorem root_deterministic_witness:
  "[''0xbb'', ''0xaa''] \<noteq> [] \<and> ''sha256'' \<noteq> [] \<and>
   (\<exists>root cs.
      buildMerkleRoot demoEthers
          (JSObject \<lparr>hashes = Some [''0xbb'', ''0xaa''], algorithm = Some ''sha256''\<rparr>) None =
        (Inr (Some root), cs) \<and>
      buildMerkleRoot demoEthers
          (JSObject \<lparr>hashes = Some [''0xbb'', ''0xaa''], algorithm = Some ''sha256''\<rparr>)
          (Some ''keccak256'') =
        (Inr (Some root), cs) \<and>
      buildMerkleRoot demoEthers (JSArray [''0xbb'', ''0xaa'']) (Some ''sha256'') =
        (Inr (Some root), cs))"
  using root_deterministic [of "[''0xbb'', ''0xaa'']" "''sha256''" demoEthers None "Some ''keccak256''"]
  by simp

text \<open>
  C8, as stated, fails on the code: a call can fail after combinations were made. The
  fourth leaf is not a hex string; the first pair is combined, then \<open>concat\<close> throws
  on the second pair.
\<close>

theorem partial_work_counterexample:
  "buildMerkleRoot_throwing demoHexEthers isHexString
       (JSArray [''0xaa'', ''0xbb'', ''0xcc'', ''zz'']) None =
     (Inl InvalidBytesLike, [(''0xaa'', ''0xbb'')])"
  by (simp add: buildMerkleRoot_throwing_def overrideOrDefault_def whileLoop_throwing.simps
      pairLoop_throwing.simps combineHashes_throwing_def demoHexEthers_def isHexString_def
      isHexDigit_def)

text \<open>
  C8, amended. An empty sequence of leaves fails with \<open>EmptyInput\<close>, as a bare array and
  as the \<open>hashes\<close> of an object that carries an algorithm. A call that fails with
  \<open>InvalidInput\<close> or \<open>EmptyInput\<close> has made no combination, and the only other
  failure is the one \<open>concat\<close> throws. When every leaf is a string that ethers accepts,
  the call does what \<open>buildMerkleRoot\<close> says: it fails with no combination made or
  returns a root.
\<close>

theorem failures_before_combination:
  "buildMerkleRoot_throwing E ok (JSArray []) ov = (Inl EmptyInput, []) \<and>
   (alg \<noteq> [] \<longrightarrow>
      buildMerkleRoot_throwing E ok (JSObject \<lparr>hashes = Some [], algorithm = Some alg\<rparr>) ov =
        (Inl EmptyInput, [])) \<and>
   (fst (buildMerkleRoot_throwing E ok leavesInput ov) = Inl e \<longrightarrow>
      e = InvalidBytesLike \<or>
      (e = InvalidInput \<or> e = EmptyInput) \<and>
        snd (buildMerkleRoot_throwing E ok leavesInput ov) = []) \<and>
   (hashesAccepted E ok \<and> list_all ok (leavesOf leavesInput) \<longrightarrow>
      buildMerkleRoot_throwing E ok leavesInput ov = buildMerkleRoot E leavesInput ov \<and>
      ((\<exists>e. buildMerkleRoot_throwing E ok leavesInput ov = (Inl e, [])) \<or>
       (\<exists>root cs. buildMerkleRoot_throwing E ok leavesInput ov = (Inr (Some root), cs))))"
proof (intro conjI impI)
  show "buildMerkleRoot_throwing E ok (JSArray []) ov = (Inl EmptyInput, [])"
    by (simp add: buildMerkleRoot_throwing_def)
next
  assume "alg \<noteq> []"
  then show "buildMerkleRoot_throwing E ok (JSObject \<lparr>hashes = Some [], algorithm = Some alg\<rparr>) ov =
      (Inl EmptyInput, [])"
    by (simp add: buildMerkleRoot_throwing_def)
next
  assume "fst (buildMerkleRoot_throwing E ok leavesInput ov) = Inl e"
  then show "e = InvalidBytesLike \<or>
      (e = InvalidInput \<or> e = EmptyInput) \<and>
        snd (buildMerkleRoot_throwing E ok leavesInput ov) = []"
    by (rule buildMerkleRoot_throwing_failure)
next
  assume a: "hashesAccepted E ok \<and> list_all ok (leavesOf leavesInput)"
  then show eq: "buildMerkleRoot_throwing E ok leavesInput ov = buildMerkleRoot E leavesInput ov"
    by (simp add: buildMerkleRoot_throwing_accepted)
  show "(\<exists>e. buildMerkleRoot_throwing E ok leavesInput ov = (Inl e, [])) \<or>
       (\<exists>root cs. buildMerkleRoot_throwing E ok leavesInput ov = (Inr (Some root), cs))"
    unfolding eq by (rule buildMerkleRoot_outcome)
qed

theorem failures_before_combination_witness:
  "''sha256'' \<noteq> [] \<and>
   buildMerkleRoot_throwing demoHexEthers isHexString
       (JSObject \<lparr>hashes = Some [], algorithm = Some ''sha256''\<rparr>) None =
     (Inl EmptyInput, []) \<and>
   fst (buildMerkleRoot_throwing demoHexEthers isHexString JSOther None) = Inl InvalidInput \<and>
   snd (buildMerkleRoot_throwing demoHexEthers isHexString JSOther None) = [] \<and>
   hashesAccepted demoHexEthers isHexString \<and>
   list_all isHexString (leavesOf (JSArray [''0xaa'', ''0xbb'', ''0xcc''])) \<and>
   buildMerkleRoot_throwing demoHexEthers isHexString (JSArray [''0xaa'', ''0xbb'', ''0xcc'']) None =
     (Inr (Some ''0xccccccaabb''), [(''0xaa'', ''0xbb''), (''0xccaabb'', ''0xcc'')])"
  using
    failures_before_combination [where E = demoHexEthers and ok = isHexString and ov = None
      and alg = "''sha256''" and leavesInput = JSOther and e = InvalidInput]
    failures_before_combination [where E = demoHexEthers and ok = isHexString and ov = None
      and alg = "''sha256''" and leavesInput = "JSArray [''0xaa'', ''0xbb'', ''0xcc'']"
      and e = InvalidInput]
    demoHexEthers_accepted
  by (simp add: buildMerkleRoot_throwing_def overrideOrDefault_def whileLoop_throwing.simps
      pairLoop_throwing.simps combineHashes_throwing_def demoHexEthers_def isHexString_def
      isHexDigit_def leavesOf_def)

text \<open>
  C2, as stated, fails on the code: line 95 substitutes \<open>'keccak256'\<close> for a missing
  override. A bare array of two digests with no override is reduced with Keccak-256.
\<close>

theorem bare_array_default_counterexample:
  "fst (buildMerkleRoot demoEthers (JSArray [''0xbb'', ''0xaa'']) None) \<noteq> Inl InvalidInput \<and>
   buildMerkleRoot demoEthers (JSArray [''0xbb'', ''0xaa'']) None =
     (Inr (Some (keccak256 demoEthers (HexString ''0xaabb''))), [(''0xbb'', ''0xaa'')]) \<and>
   keccak256 demoEthers (HexString ''0xaabb'') = ''0xcaabb''"
  by (simp add: buildMerkleRoot_array whileLoop_two overrideOrDefault_def combineHashes_def
      demoEthers_def)

text \<open>
  C2, amended. Given a bare array and no override, \<open>buildMerkleRoot\<close> does what it does
  for the Leaf Set of these digests tagged \<open>'keccak256'\<close>. It fails with
  \<open>InvalidInput\<close> exactly when the input is neither an array nor an object with a
  \<open>hashes\<close> property and a non-empty \<open>algorithm\<close>.
\<close>

theorem bare_array_uses_keccak256:
  "buildMerkleRoot E (JSArray xs) None =
     buildMerkleRoot E (JSObject \<lparr>hashes = Some xs, algorithm = Some ''keccak256''\<rparr>) None \<and>
   (fst (buildMerkleRoot E leavesInput ov) = Inl InvalidInput) =
     (case leavesInput of
        JSObject obj \<Rightarrow> hashes obj = None \<or> algorithm obj = None \<or> algorithm obj = Some []
      | JSArray xs \<Rightarrow> False
      | JSOther \<Rightarrow> True)"
proof
  show "buildMerkleRoot E (JSArray xs) None =
     buildMerkleRoot E (JSObject \<lparr>hashes = Some xs, algorithm = Some ''keccak256''\<rparr>) None"
    by (simp add: buildMerkleRoot_array buildMerkleRoot_object overrideOrDefault_def)
next
  show "(fst (buildMerkleRoot E leavesInput ov) = Inl InvalidInput) =
     (case leavesInput of
        JSObject obj \<Rightarrow> hashes obj = None \<or> algorithm obj = None \<or> algorithm obj = Some []
      | JSArray xs \<Rightarrow> False
      | JSOther \<Rightarrow> True)"
    by (auto simp: buildMerkleRoot_def split: leavesInput.splits option.splits prod.splits)
qed

end
